theory Spec2Isabelle
  imports Main
begin

section \<open>Data model of \<open>moodle.ts\<close>\<close>

text \<open>
  The interfaces \<open>Course\<close> and \<open>FileInfo\<close> and the type \<open>Contents\<close> of the source, as
  records. JavaScript numbers that hold identifiers, sizes and timestamps are integers.
  Strings are Isabelle strings: lists of 8-bit characters, read as the code units of the
  JavaScript string, so a code unit above 255 is outside the model.

  \<open>RawCourse\<close> is an element of the array the endpoint \<open>core_enrol_get_users_courses\<close>
  answers with; \<open>getCourses\<close> reads its fields \<open>id\<close> and \<open>fullname\<close>. A field that several
  interfaces share (\<open>id\<close>, \<open>name\<close>) carries the interface as a prefix.
\<close>

record Course =
  course_id :: int
  course_name :: string

record RawCourse =
  raw_id :: int
  fullname :: string

record FileInfo =
  filename :: string
  filepath :: string
  filesize :: int
  fileurl :: string
  timecreated :: int
  timemodified :: int

text \<open>An element of a module's \<open>contents\<close>: \<open>{ type: string } & FileInfo\<close>.\<close>

record ContentEntry = FileInfo +
  type :: string

text \<open>A module; its \<open>contents\<close> field is optional (\<open>contents?:\<close>).\<close>

record Module =
  mod_id :: int
  modulename :: string
  contents :: "ContentEntry list option"

record Section =
  section_id :: int
  section_name :: string
  modules :: "Module list"

type_synonym Contents = "Section list"

text \<open>
  What \<open>JSON.parse(res.body)\<close> yields: the answer of one of the three endpoints in the
  shape the TypeScript annotations of the source declare for it, or Moodle's exception
  object, of which the source reads the field \<open>errorcode\<close>.
\<close>

datatype payload =
    SiteInfo int string
  | CourseList "RawCourse list"
  | CourseContents Contents
  | Exception string

text \<open>\<open>parsed.errorcode\<close>: only the exception object has the property.\<close>

fun errorcode :: "payload \<Rightarrow> string option" where
  "errorcode (Exception c) = Some c"
| "errorcode _ = None"

text \<open>
  One request as the \<open>try\<close> block of \<open>call\<close> sees it: something throws before line 68 is
  done (\<open>Fails\<close>: \<open>got.post\<close> rejects, or \<open>JSON.parse\<close> throws), or a parsed body is
  there.
\<close>

datatype reply = Fails | Parsed payload

datatype event = Disconnected | Reconnected | NetworkEvent bool | Username "string option"

datatype error = RequestError | TypeError

text \<open>
  How an \<open>async\<close> method ends: its promise is fulfilled, is rejected, or stays pending
  (the request or the login window it awaits never settles).
\<close>

datatype 'a outcome = Returned 'a | Thrown error | Pending

text \<open>The \<open>data\<close> argument of \<open>call\<close>: \<open>{ userid }\<close>, \<open>{ courseid }\<close> or nothing.\<close>

type_synonym data = "(string \<times> int option) list"

text \<open>The fields of the class \<open>MoodleClient\<close>; an absent value is \<open>undefined\<close>.\<close>

record MoodleClient =
  userid :: "int option"
  username :: "string option"
  connected :: bool
  cachedCourses :: "Course list"

text \<open>
  The client together with what surrounds it. \<open>isLogged\<close> is \<open>loginManager.isLogged\<close>.
  \<open>replies\<close> scripts the server: the outcome of the first, second, ... request from now
  on; a request beyond the script is never answered. \<open>logins\<close> scripts
  \<open>loginManager.createLoginWindow()\<close>: the value each call resolves to and the value of
  \<open>isLogged\<close> after it. The remaining fields record what the client did: the events it
  emitted, the requests it posted, the login windows it opened, and the milliseconds it
  spent in \<open>setTimeout\<close>.

  One method of the client runs at a time: between the \<open>await\<close>s of a method nothing
  else changes the client or the login manager. A finite script stands for the start of
  what the surroundings do; a run that the client would carry on for ever ends, in the
  model, at a request that is never answered, with the outcome \<open>Pending\<close>.
\<close>

record world = MoodleClient +
  isLogged :: bool
  replies :: "reply list"
  logins :: "(bool \<times> bool) list"
  events :: "event list"
  requests :: "(string \<times> data) list"
  loginWindows :: nat
  clock :: nat

text \<open>The state after the constructor, in a given environment.\<close>

definition new_client :: "bool \<Rightarrow> reply list \<Rightarrow> (bool \<times> bool) list \<Rightarrow> world" where
  "new_client logged rs ls =
     \<lparr>userid = None, username = None, connected = True, cachedCourses = [],
      isLogged = logged, replies = rs, logins = ls, events = [], requests = [],
      loginWindows = 0, clock = 0\<rparr>"

definition emit :: "event \<Rightarrow> world \<Rightarrow> world" where
  "emit e w = w\<lparr>events := events w @ [e]\<rparr>"

text \<open>\<open>got.post(...)\<close> followed by \<open>JSON.parse\<close>; \<open>None\<close> when no answer ever comes.\<close>

definition post :: "world \<Rightarrow> string \<Rightarrow> data \<Rightarrow> reply option \<times> world" where
  "post w wsfunction dat =
     (let w' = w\<lparr>requests := requests w @ [(wsfunction, dat)]\<rparr> in
      case replies w of
        [] \<Rightarrow> (None, w')
      | r # rs \<Rightarrow> (Some r, w'\<lparr>replies := rs\<rparr>))"

text \<open>\<open>loginManager.createLoginWindow()\<close>; \<open>None\<close> when the window never closes.\<close>

definition createLoginWindow :: "world \<Rightarrow> bool option \<times> world" where
  "createLoginWindow w =
     (let w' = w\<lparr>loginWindows := loginWindows w + 1\<rparr> in
      case logins w of
        [] \<Rightarrow> (None, w')
      | (logged, l) # ls \<Rightarrow> (Some logged, w'\<lparr>logins := ls, isLogged := l\<rparr>))"

section \<open>The request method\<close>

text \<open>
  \<open>call\<close> (lines 52 to 94) and the closure \<open>tryConnection\<close> of its \<open>catch\<close> block. The
  inner \<open>case\<close> is the \<open>try\<close> block, the outer one the \<open>catch\<close>. The recursive call after
  a login leaves \<open>catchNetworkError\<close> at its default \<open>true\<close>. \<open>resolve\<close> hands the value
  of the re-attempt to the caller; the two statements after it run before the caller
  resumes.
\<close>

function call :: "world \<Rightarrow> string \<Rightarrow> data \<Rightarrow> bool \<Rightarrow> payload option outcome \<times> world"
  and tryConnection :: "world \<Rightarrow> string \<Rightarrow> data \<Rightarrow> payload option outcome \<times> world"
where
  "call w wsfunction dat catchNetworkError =
     (if \<not> connected w then (Returned None, w)
      else if \<not> isLogged w then (Returned None, w)
      else
        (case (case post w wsfunction dat of
                 (None, w1) \<Rightarrow> (Pending, w1)
               | (Some Fails, w1) \<Rightarrow> (Thrown RequestError, w1)
               | (Some (Parsed parsed), w1) \<Rightarrow>
                   if errorcode parsed = Some ''invalidtoken'' then
                     (case createLoginWindow w1 of
                        (None, w2) \<Rightarrow> (Pending, w2)
                      | (Some logged, w2) \<Rightarrow>
                          if logged then call w2 wsfunction dat True
                          else (Returned None, w2))
                   else (Returned (Some parsed), w1))
         of (Thrown e, w3) \<Rightarrow>
              if catchNetworkError then
                tryConnection
                  (emit (NetworkEvent False) (emit Disconnected (w3\<lparr>connected := False\<rparr>)))
                  wsfunction dat
              else (Thrown e, w3)
          | (Returned v, w3) \<Rightarrow> (Returned v, w3)
          | (Pending, w3) \<Rightarrow> (Pending, w3)))"
| "tryConnection w wsfunction dat =
     (case call w wsfunction dat False of
        (Returned v, w1) \<Rightarrow>
          (Returned v, emit (NetworkEvent True) (emit Reconnected (w1\<lparr>connected := True\<rparr>)))
      | (Thrown e, w1) \<Rightarrow> tryConnection (w1\<lparr>clock := clock w1 + 5000\<rparr>) wsfunction dat
      | (Pending, w1) \<Rightarrow> (Pending, w1))"
  by pat_completeness auto

text \<open>
  Termination: every recursive call of \<open>call\<close> follows a request that used up one scripted
  reply, and \<open>tryConnection\<close> repeats itself only after a \<open>call\<close> that threw, which used
  up a reply as well.
\<close>

termination call
proof -
  have emit_replies: "replies (emit e w) = replies w" for e w
    by (simp add: emit_def)
  have post_le: "length (replies w') \<le> length (replies w)"
    if "post w f d = (r, w')" for w f d r w'
    using that by (auto simp: post_def Let_def split: list.splits)
  have post_less: "length (replies w') < length (replies w)"
    if "post w f d = (Some r, w')" for w f d r w'
    using that by (auto simp: post_def Let_def split: list.splits)
  have login_replies: "replies w' = replies w"
    if "createLoginWindow w = (r, w')" for w r w'
    using that by (auto simp: createLoginWindow_def Let_def split: list.splits)
  have shrinks:
    "call_tryConnection_dom (Inl (w, f, d, c)) \<Longrightarrow>
       length (replies (snd (call w f d c))) \<le> length (replies w) \<and>
       (\<forall>e. fst (call w f d c) = Thrown e \<longrightarrow>
          length (replies (snd (call w f d c))) < length (replies w))"
    "call_tryConnection_dom (Inr (v, g, h)) \<Longrightarrow>
       length (replies (snd (tryConnection v g h))) \<le> length (replies v)"
    for w f d c v g h
  proof (induction w f d c and v g h rule: call_tryConnection.pinduct)
    case (1 w f d c)
    note dom = "1.hyps" and IHcall = "1.IH"(1) and IHtry = "1.IH"(2)
    show ?case
    proof (cases "connected w \<and> isLogged w")
      case False
      then show ?thesis using dom by (auto simp: call.psimps)
    next
      case True
      define tb where "tb =
        (case post w f d of
           (None, w1) \<Rightarrow> (Pending, w1)
         | (Some Fails, w1) \<Rightarrow> (Thrown RequestError, w1)
         | (Some (Parsed parsed), w1) \<Rightarrow>
             if errorcode parsed = Some ''invalidtoken'' then
               (case createLoginWindow w1 of
                  (None, w2) \<Rightarrow> (Pending, w2)
                | (Some logged, w2) \<Rightarrow>
                    if logged then call w2 f d True
                    else (Returned None, w2))
             else (Returned (Some parsed), w1))"
      have res: "call w f d c =
        (case tb of
           (Thrown e, w3) \<Rightarrow>
             if c then
               tryConnection
                 (emit (NetworkEvent False) (emit Disconnected (w3\<lparr>connected := False\<rparr>))) f d
             else (Thrown e, w3)
         | (Returned v, w3) \<Rightarrow> (Returned v, w3)
         | (Pending, w3) \<Rightarrow> (Pending, w3))"
        using True dom by (simp add: call.psimps tb_def)
      obtain r w1 where p: "post w f d = (r, w1)" by (cases "post w f d")
      have tb_both: "length (replies (snd tb)) \<le> length (replies w) \<and>
            (\<forall>e. fst tb = Thrown e \<longrightarrow> length (replies (snd tb)) < length (replies w))"
      proof (cases r)
        case None
        then show ?thesis using p post_le[OF p] by (simp add: tb_def)
      next
        case (Some rp)
        note less = post_less[OF p[unfolded Some]]
        show ?thesis
        proof (cases rp)
          case Fails
          then show ?thesis using p Some less by (simp add: tb_def)
        next
          case (Parsed parsed)
          show ?thesis
          proof (cases "errorcode parsed = Some ''invalidtoken''")
            case False
            then show ?thesis using p Some Parsed less by (simp add: tb_def)
          next
            case inv: True
            obtain l w2 where cl: "createLoginWindow w1 = (l, w2)"
              by (cases "createLoginWindow w1")
            note eq = login_replies[OF cl]
            show ?thesis
            proof (cases l)
              case None
              then show ?thesis using p Some Parsed inv cl eq less by (simp add: tb_def)
            next
              case lsome: (Some logged)
              show ?thesis
              proof (cases logged)
                case False
                then show ?thesis
                  using p Some Parsed inv cl eq less lsome by (simp add: tb_def)
              next
                case lg: True
                have tbc: "tb = call w2 f d True"
                  using p Some Parsed inv cl lsome lg by (simp add: tb_def)
                have "length (replies (snd (call w2 f d True))) \<le> length (replies w2) \<and>
                  (\<forall>e. fst (call w2 f d True) = Thrown e \<longrightarrow>
                     length (replies (snd (call w2 f d True))) < length (replies w2))"
                  using IHcall[of r w1 rp parsed l w2 logged] True p Some Parsed inv cl lsome lg
                  by simp
                then show ?thesis using tbc eq less by auto
              qed
            qed
          qed
        qed
      qed
      obtain x y where tbxy: "tb = (x, y)" by (cases tb)
      show ?thesis
      proof (cases x)
        case (Returned v)
        then show ?thesis using res tbxy tb_both by simp
      next
        case Pending
        then show ?thesis using res tbxy tb_both by simp
      next
        case (Thrown e)
        have less: "length (replies y) < length (replies w)"
          using tb_both tbxy Thrown by simp
        show ?thesis
        proof (cases c)
          case False
          then show ?thesis using res tbxy Thrown less by simp
        next
          case c: True
          have "length (replies (snd (tryConnection
                  (emit (NetworkEvent False) (emit Disconnected (y\<lparr>connected := False\<rparr>))) f d)))
                \<le> length (replies
                  (emit (NetworkEvent False) (emit Disconnected (y\<lparr>connected := False\<rparr>))))"
            using IHtry[of x y e] True tbxy Thrown c by (simp add: tb_def)
          then show ?thesis using res tbxy Thrown c less by (simp add: emit_replies)
        qed
      qed
    qed
  next
    case (2 w f d)
    note dom = "2.hyps" and IHcall = "2.IH"(1) and IHtry = "2.IH"(2)
    obtain x y where cxy: "call w f d False = (x, y)" by (cases "call w f d False")
    show ?case
    proof (cases x)
      case (Returned v)
      then show ?thesis using dom cxy IHcall by (simp add: tryConnection.psimps emit_replies)
    next
      case Pending
      then show ?thesis using dom cxy IHcall by (simp add: tryConnection.psimps)
    next
      case (Thrown e)
      have "length (replies y) < length (replies w)" using IHcall cxy Thrown by simp
      moreover have "length (replies (snd (tryConnection (y\<lparr>clock := clock y + 5000\<rparr>) f d)))
          \<le> length (replies (y\<lparr>clock := clock y + 5000\<rparr>))"
        using IHtry[of x y e] cxy Thrown by simp
      ultimately show ?thesis using dom cxy Thrown by (simp add: tryConnection.psimps)
    qed
  qed
  show ?thesis
  proof (relation "measure (\<lambda>x. case x of
             Inl (w, f, d, c) \<Rightarrow> 2 * length (replies w)
           | Inr (w, f, d) \<Rightarrow> 2 * length (replies w) + 1)", goal_cases)
    case 1
    then show ?case by simp
  next
    case (2 w f d c x y x2 x2a xa ya x2b)
    then show ?case
      using post_less[of w f d x2 y] login_replies[of y xa ya] by simp
  next
    case (3 w f d c x y e)
    note tb = "3"(3) and dom = "3"(6)
    obtain r w1 where p: "post w f d = (r, w1)" by (cases "post w f d")
    have "length (replies y) < length (replies w)"
    proof (cases r)
      case None
      then show ?thesis using tb p \<open>x = Thrown e\<close> by simp
    next
      case (Some rp)
      note less = post_less[OF p[unfolded Some]]
      show ?thesis
      proof (cases rp)
        case Fails
        then show ?thesis using tb p Some less \<open>x = Thrown e\<close> by simp
      next
        case (Parsed parsed)
        show ?thesis
        proof (cases "errorcode parsed = Some ''invalidtoken''")
          case False
          then show ?thesis using tb p Some Parsed \<open>x = Thrown e\<close> by simp
        next
          case inv: True
          obtain l w2 where cl: "createLoginWindow w1 = (l, w2)"
            by (cases "createLoginWindow w1")
          note eq = login_replies[OF cl]
          show ?thesis
          proof (cases "l = Some True")
            case False
            then show ?thesis using tb p Some Parsed inv cl \<open>x = Thrown e\<close>
              by (cases l) auto
          next
            case True
            have d2: "call_tryConnection_dom (Inl (w2, f, d, True))"
              using dom[of r w1 rp parsed l w2 True] p Some Parsed inv cl True by simp
            have "call w2 f d True = (Thrown e, y)"
              using tb p Some Parsed inv cl True \<open>x = Thrown e\<close> by simp
            then show ?thesis using shrinks(1)[OF d2] eq less by simp
          qed
        qed
      qed
    qed
    then show ?case by (simp add: emit_replies)
  next
    case (4 w f d)
    then show ?case by simp
  next
    case (5 w f d x y x2)
    then have eq: "call w f d False = (Thrown x2, y)"
      and dom: "call_tryConnection_dom (Inl (w, f, d, False))"
      by simp_all
    show ?case using shrinks(1)[OF dom] eq by simp
  qed
qed

declare call.simps [simp del] tryConnection.simps [simp del]

section \<open>The regular expression of \<open>getCourses\<close>\<close>

text \<open>
  \<open>name.match(/\d+ - (.+) \(.+\)/)\<close>, as a backtracking matcher written out for this
  pattern. The pattern has no anchors and no flags: \<open>\d\<close> is an ASCII digit, \<open>.\<close> is any
  character but a line terminator (of those, line feed and carriage return are
  characters of the model), \<open>+\<close> is greedy, and the match that counts is the first one
  found, trying the start positions from the left. Each function below matches the rest
  of the pattern from one place in it and, where the place is after the group's opening
  parenthesis, returns what the group then captures.
\<close>

definition is_digit :: "char \<Rightarrow> bool" where
  "is_digit c = (c \<in> set ''0123456789'')"

definition is_dot :: "char \<Rightarrow> bool" where
  "is_dot c = (c \<noteq> CHR 0x0A \<and> c \<noteq> CHR 0x0D)"

text \<open>Inside the last \<open>.+\<close>, one character taken: take one more, or else read \<open>\)\<close>.\<close>

fun m_suffix_more :: "string \<Rightarrow> bool" where
  "m_suffix_more [] = False"
| "m_suffix_more (c # cs) = ((is_dot c \<and> m_suffix_more cs) \<or> c = CHR '')'')"

text \<open>The pattern from the space before \<open>\(\<close> on.\<close>

fun m_suffix :: "string \<Rightarrow> bool" where
  "m_suffix (a # b # c # cs) = (a = CHR '' '' \<and> b = CHR ''('' \<and> is_dot c \<and> m_suffix_more cs)"
| "m_suffix _ = False"

text \<open>
  Inside the group \<open>(.+)\<close>, one character taken: take one more and go on, or else close
  the group here. The result is what the group captures from here on.
\<close>

fun m_name_more :: "string \<Rightarrow> string option" where
  "m_name_more [] = None"
| "m_name_more (c # cs) =
     (case (if is_dot c then m_name_more cs else None) of
        Some g \<Rightarrow> Some (c # g)
      | None \<Rightarrow> if m_suffix (c # cs) then Some [] else None)"

text \<open>The pattern from the group on.\<close>

fun m_name :: "string \<Rightarrow> string option" where
  "m_name [] = None"
| "m_name (c # cs) = (if is_dot c then map_option ((#) c) (m_name_more cs) else None)"

text \<open>The pattern from the space before the hyphen on.\<close>

fun m_sep :: "string \<Rightarrow> string option" where
  "m_sep (a # b # c # cs) =
     (if a = CHR '' '' \<and> b = CHR ''-'' \<and> c = CHR '' '' then m_name cs else None)"
| "m_sep _ = None"

text \<open>Inside \<open>\d+\<close>, one digit taken: take one more, or else go on with the separator.\<close>

fun m_digits_more :: "string \<Rightarrow> string option" where
  "m_digits_more [] = None"
| "m_digits_more (c # cs) =
     (case (if is_digit c then m_digits_more cs else None) of
        Some g \<Rightarrow> Some g
      | None \<Rightarrow> m_sep (c # cs))"

text \<open>The whole pattern at the start of the string.\<close>

fun m_here :: "string \<Rightarrow> string option" where
  "m_here [] = None"
| "m_here (c # cs) = (if is_digit c then m_digits_more cs else None)"

text \<open>\<open>name.match(...)\<close>: \<open>None\<close> for \<open>null\<close>, otherwise \<open>m[1]\<close> of the leftmost match.\<close>

fun name_match :: "string \<Rightarrow> string option" where
  "name_match [] = None"
| "name_match (c # cs) =
     (case m_here (c # cs) of
        Some g \<Rightarrow> Some g
      | None \<Rightarrow> name_match cs)"

section \<open>The methods of the client\<close>

text \<open>
  \<open>getUserID\<close> (lines 96 to 103). Destructuring \<open>undefined\<close> throws a \<open>TypeError\<close>; an
  object or array without the two properties yields \<open>undefined\<close> for both.
\<close>

definition getUserID :: "world \<Rightarrow> int option outcome \<times> world" where
  "getUserID w =
     (case call w ''core_webservice_get_site_info'' [] True of
        (Returned None, w1) \<Rightarrow> (Thrown TypeError, w1)
      | (Returned (Some res), w1) \<Rightarrow>
          (let (userid', fullname') =
                 (case res of SiteInfo u n \<Rightarrow> (Some u, Some n) | _ \<Rightarrow> (None, None));
               w2 = w1\<lparr>username := fullname'\<rparr>;
               w3 = emit (Username fullname') w2;
               w4 = w3\<lparr>userid := userid'\<rparr>
           in (Returned userid', w4))
      | (Thrown e, w1) \<Rightarrow> (Thrown e, w1)
      | (Pending, w1) \<Rightarrow> (Pending, w1))"

text \<open>The callback of \<open>courses.map\<close> (lines 109 to 115).\<close>

definition toCourse :: "RawCourse \<Rightarrow> Course" where
  "toCourse c =
     (let name = fullname c;
          m = name_match name
      in \<lparr>course_id = raw_id c, course_name = (case m of Some g \<Rightarrow> g | None \<Rightarrow> name)\<rparr>)"

text \<open>
  \<open>courses.map(...)\<close> on what \<open>call\<close> returned; \<open>None\<close> when it throws a \<open>TypeError\<close>:
  \<open>undefined\<close> and the objects have no \<open>map\<close>, and a section has no \<open>fullname\<close> to call
  \<open>match\<close> on. The empty array is the same value whichever endpoint sent it.
\<close>

fun courses_map :: "payload option \<Rightarrow> Course list option" where
  "courses_map (Some (CourseList courses)) = Some (map toCourse courses)"
| "courses_map (Some (CourseContents [])) = Some []"
| "courses_map _ = None"

text \<open>\<open>getCourses\<close> (lines 105 to 121); line 106 stands before the \<open>try\<close>.\<close>

definition getCourses :: "world \<Rightarrow> Course list outcome \<times> world" where
  "getCourses w =
     (case (case userid w of Some u \<Rightarrow> (Returned (Some u), w) | None \<Rightarrow> getUserID w) of
        (Thrown e, w1) \<Rightarrow> (Thrown e, w1)
      | (Pending, w1) \<Rightarrow> (Pending, w1)
      | (Returned userid', w1) \<Rightarrow>
          (case call w1 ''core_enrol_get_users_courses'' [(''userid'', userid')] False of
             (Pending, w2) \<Rightarrow> (Pending, w2)
           | (Thrown e, w2) \<Rightarrow> (Returned (cachedCourses w2), w2)
           | (Returned courses, w2) \<Rightarrow>
               (case courses_map courses of
                  None \<Rightarrow> (Returned (cachedCourses w2), w2)
                | Some c \<Rightarrow> (Returned c, w2\<lparr>cachedCourses := c\<rparr>))))"

subsection \<open>\<open>path.join\<close>\<close>

text \<open>
  \<open>path.join\<close> is Node's, not the repository's. The model is its POSIX flavour for two
  arguments: the non-empty arguments are joined with a slash and the result is
  normalized (empty and \<open>.\<close> segments dropped, \<open>..\<close> resolved against the segment before
  it, a trailing slash kept).
\<close>

fun split_slash :: "string \<Rightarrow> string list" where
  "split_slash [] = [[]]"
| "split_slash (c # cs) =
     (if c = CHR ''/'' then [] # split_slash cs
      else (case split_slash cs of [] \<Rightarrow> [[c]] | s # ss \<Rightarrow> (c # s) # ss))"

fun normalize_segments :: "bool \<Rightarrow> string list \<Rightarrow> string list \<Rightarrow> string list" where
  "normalize_segments allowAboveRoot res [] = res"
| "normalize_segments allowAboveRoot res (seg # segs) =
     (if seg = [] \<or> seg = ''.'' then normalize_segments allowAboveRoot res segs
      else if seg = ''..'' then
        (if res \<noteq> [] \<and> last res \<noteq> ''..'' then normalize_segments allowAboveRoot (butlast res) segs
         else if allowAboveRoot then normalize_segments allowAboveRoot (res @ [''..'']) segs
         else normalize_segments allowAboveRoot res segs)
      else normalize_segments allowAboveRoot (res @ [seg]) segs)"

fun join_slash :: "string list \<Rightarrow> string" where
  "join_slash [] = []"
| "join_slash [s] = s"
| "join_slash (s # ss) = s @ ''/'' @ join_slash ss"

definition path_normalize :: "string \<Rightarrow> string" where
  "path_normalize p =
     (if p = [] then ''.''
      else
        (let isAbsolute = (hd p = CHR ''/'');
             trailingSeparator = (last p = CHR ''/'');
             q = join_slash (normalize_segments (\<not> isAbsolute) [] (split_slash p))
         in if q = [] then (if isAbsolute then ''/'' else if trailingSeparator then ''./'' else ''.'')
            else (if isAbsolute then ''/'' else []) @ q @ (if trailingSeparator then ''/'' else [])))"

definition path_join :: "string \<Rightarrow> string \<Rightarrow> string" where
  "path_join a b =
     (if a = [] \<and> b = [] then ''.''
      else if a = [] then path_normalize b
      else if b = [] then path_normalize a
      else path_normalize (a @ ''/'' @ b))"

subsection \<open>\<open>getFileInfos\<close>\<close>

text \<open>The object pushed at line 135: the entry without its \<open>type\<close>, with the joined path.\<close>

definition pushed :: "string \<Rightarrow> ContentEntry \<Rightarrow> FileInfo" where
  "pushed modulename' file =
     \<lparr>filename = filename file, filepath = path_join modulename' (filepath file),
      filesize = filesize file, fileurl = fileurl file,
      timecreated = timecreated file, timemodified = timemodified file\<rparr>"

text \<open>The inner loop (lines 131 to 137) and the outer loop (lines 128 to 138) over \<open>files\<close>.\<close>

fun files_loop :: "string \<Rightarrow> ContentEntry list \<Rightarrow> FileInfo list \<Rightarrow> FileInfo list" where
  "files_loop modulename' [] files = files"
| "files_loop modulename' (file # rest) files =
     files_loop modulename' rest
       (if type file = ''file'' then files @ [pushed modulename' file] else files)"

fun modules_loop :: "Module list \<Rightarrow> FileInfo list \<Rightarrow> FileInfo list" where
  "modules_loop [] files = files"
| "modules_loop (m # rest) files =
     modules_loop rest
       (case contents m of
          None \<Rightarrow> files
        | Some cs \<Rightarrow> files_loop (modulename m) cs files)"

text \<open>
  \<open>getFileInfos\<close> (lines 123 to 140). \<open>contents.find\<close> throws a \<open>TypeError\<close> on \<open>undefined\<close>
  and on an object; in an array of courses no element has a \<open>name\<close>, so nothing is found.
\<close>

definition getFileInfos :: "world \<Rightarrow> int \<Rightarrow> FileInfo list outcome \<times> world" where
  "getFileInfos w courseid =
     (case call w ''core_course_get_contents'' [(''courseid'', Some courseid)] True of
        (Thrown e, w1) \<Rightarrow> (Thrown e, w1)
      | (Pending, w1) \<Rightarrow> (Pending, w1)
      | (Returned None, w1) \<Rightarrow> (Thrown TypeError, w1)
      | (Returned (Some (SiteInfo u n)), w1) \<Rightarrow> (Thrown TypeError, w1)
      | (Returned (Some (Exception c)), w1) \<Rightarrow> (Thrown TypeError, w1)
      | (Returned (Some (CourseList cs)), w1) \<Rightarrow> (Returned [], w1)
      | (Returned (Some (CourseContents contents')), w1) \<Rightarrow>
          (case find (\<lambda>c. section_name c = ''Materiali'') contents' of
             None \<Rightarrow> (Returned [], w1)
           | Some mat \<Rightarrow> (Returned (modules_loop (modules mat) []), w1)))"

section \<open>The shape of a display name, and example inputs\<close>

text \<open>
  The display name \<open><digits> - <name> (<suffix>)\<close> put together from its three parts, and
  what the parts are: digits, and two non-empty texts without line terminators.
\<close>

definition display_name :: "string \<Rightarrow> string \<Rightarrow> string \<Rightarrow> string" where
  "display_name ds nm sf = ds @ '' - '' @ nm @ '' ('' @ sf @ '')''"

definition display_parts :: "string \<Rightarrow> string \<Rightarrow> string \<Rightarrow> bool" where
  "display_parts ds nm sf \<longleftrightarrow>
     ds \<noteq> [] \<and> list_all is_digit ds \<and> nm \<noteq> [] \<and> list_all is_dot nm \<and>
     sf \<noteq> [] \<and> list_all is_dot sf"

text \<open>A module with one file and one link, in a course with and without \<open>Materiali\<close>.\<close>

definition slides :: ContentEntry where
  "slides = \<lparr>filename = ''slides.pdf'', filepath = '''', filesize = 1024,
             fileurl = ''https://webeep.polimi.it/f/1'', timecreated = 10, timemodified = 20,
             type = ''file''\<rparr>"

definition link :: ContentEntry where
  "link = \<lparr>filename = ''index.html'', filepath = ''/'', filesize = 0,
           fileurl = ''https://webeep.polimi.it/f/2'', timecreated = 11, timemodified = 21,
           type = ''url''\<rparr>"

definition lecture1 :: Module where
  "lecture1 = \<lparr>mod_id = 5, modulename = ''Lecture 1'', contents = Some [slides, link]\<rparr>"

definition forum_only :: Contents where
  "forum_only = [\<lparr>section_id = 1, section_name = ''Forum'', modules = [lecture1]\<rparr>]"

definition with_materials :: Contents where
  "with_materials =
     [\<lparr>section_id = 1, section_name = ''Forum'', modules = []\<rparr>,
      \<lparr>section_id = 2, section_name = ''Materiali'',
       modules = [lecture1, \<lparr>mod_id = 6, modulename = ''Empty'', contents = None\<rparr>]\<rparr>]"

section \<open>Facts about \<open>call\<close>\<close>

lemma call_guard:
  "\<not> connected w \<or> \<not> isLogged w \<Longrightarrow> call w f d c = (Returned None, w)"
  by (auto simp: call.simps)

lemma call_parsed:
  assumes "connected w" "isLogged w" "replies w = Parsed p # rs"
    and "errorcode p \<noteq> Some ''invalidtoken''"
  shows "call w f d c =
           (Returned (Some p), w\<lparr>replies := rs, requests := requests w @ [(f, d)]\<rparr>)"
  using assms by (simp add: call.simps post_def Let_def)

lemma call_unanswered:
  assumes "connected w" "isLogged w" "replies w = []"
  shows "call w f d c = (Pending, w\<lparr>requests := requests w @ [(f, d)]\<rparr>)"
  using assms by (simp add: call.simps post_def Let_def)

lemma call_fails_nocatch:
  assumes "connected w" "isLogged w" "replies w = Fails # rs"
  shows "call w f d False =
           (Thrown RequestError, w\<lparr>replies := rs, requests := requests w @ [(f, d)]\<rparr>)"
  using assms by (simp add: call.simps post_def Let_def)

text \<open>
  The re-attempt of \<open>tryConnection\<close> is a \<open>call\<close> made while \<open>connected\<close> is false: it
  stops at line 53, so the closure reconnects at once and hands on \<open>undefined\<close>. In the
  source nothing can run between line 75, which clears the flag, and line 53 of the
  re-attempt: the promise executor, \<open>tryConnection\<close> and the start of \<open>call\<close> run
  synchronously.
\<close>

lemma tryConnection_disconnected:
  assumes "\<not> connected w"
  shows "tryConnection w f d =
           (Returned None,
            w\<lparr>connected := True, events := events w @ [Reconnected, NetworkEvent True]\<rparr>)"
  using assms by (simp add: tryConnection.simps call_guard emit_def)

lemma call_fails_catch:
  assumes "connected w" "isLogged w" "replies w = Fails # rs"
  shows "call w f d True =
           (Returned None,
            w\<lparr>replies := rs, requests := requests w @ [(f, d)],
              events := events w @
                [Disconnected, NetworkEvent False, Reconnected, NetworkEvent True]\<rparr>)"
  using assms by (simp add: call.simps post_def Let_def tryConnection_disconnected emit_def)

text \<open>With \<open>catchNetworkError\<close> set, the promise of \<open>call\<close> is never rejected.\<close>

lemma never_throws_aux:
  "c \<longrightarrow> (\<forall>e. fst (call w f d c) \<noteq> Thrown e)"
  "\<forall>e. fst (tryConnection w f d) \<noteq> Thrown e"
proof (induction w f d c and w f d rule: call_tryConnection.induct)
  case (1 w f d c)
  show ?case
  proof
    assume c
    show "\<forall>e. fst (call w f d c) \<noteq> Thrown e"
      using 1(2) \<open>c\<close>
      by (subst call.simps) (auto split: prod.splits outcome.splits)
  qed
next
  case (2 w f d)
  then show ?case
    by (subst tryConnection.simps) (auto split: prod.splits outcome.splits)
qed

lemma call_catch_never_throws: "call w f d True \<noteq> (Thrown e, w')"
  using never_throws_aux(1)[of True w f d] by auto

lemma call_invalid_declined:
  assumes "connected w" "isLogged w" "replies w = Parsed p # rs"
    and "errorcode p = Some ''invalidtoken''" and "logins w = (False, l) # ls"
  shows "call w f d c =
           (Returned None,
            w\<lparr>isLogged := l, replies := rs, logins := ls,
              requests := requests w @ [(f, d)], loginWindows := loginWindows w + 1\<rparr>)"
  using assms by (simp add: call.simps post_def createLoginWindow_def Let_def)

lemma call_invalid_unanswered:
  assumes "connected w" "isLogged w" "replies w = Parsed p # rs"
    and "errorcode p = Some ''invalidtoken''" and "logins w = []"
  shows "call w f d c =
           (Pending,
            w\<lparr>replies := rs, requests := requests w @ [(f, d)],
              loginWindows := loginWindows w + 1\<rparr>)"
  using assms by (simp add: call.simps post_def createLoginWindow_def Let_def)

lemma call_invalid_logged:
  assumes "connected w" "isLogged w" "replies w = Parsed p # rs"
    and "errorcode p = Some ''invalidtoken''" and "logins w = (True, l) # ls"
  shows "call w f d c =
           call (w\<lparr>isLogged := l, replies := rs, logins := ls,
                   requests := requests w @ [(f, d)], loginWindows := loginWindows w + 1\<rparr>)
             f d True"
proof -
  let ?w2 = "w\<lparr>isLogged := l, replies := rs, logins := ls,
                   requests := requests w @ [(f, d)], loginWindows := loginWindows w + 1\<rparr>"
  have step: "call w f d c =
      (case call ?w2 f d True of
         (Thrown e, w3) \<Rightarrow>
           if c then
             tryConnection
               (emit (NetworkEvent False) (emit Disconnected (w3\<lparr>connected := False\<rparr>))) f d
           else (Thrown e, w3)
       | (Returned v, w3) \<Rightarrow> (Returned v, w3)
       | (Pending, w3) \<Rightarrow> (Pending, w3))"
  proof -
    have eq: "w\<lparr>requests := requests w @ [(f, d)], replies := rs,
                 loginWindows := Suc (loginWindows w), logins := ls, isLogged := l\<rparr> = ?w2"
      by simp
    show ?thesis
      using assms
      by (subst call.simps) (simp add: post_def createLoginWindow_def Let_def eq)
  qed
  obtain x y where xy: "call ?w2 f d True = (x, y)" by (cases "call ?w2 f d True")
  show ?thesis
  proof (cases x)
    case (Thrown e)
    then show ?thesis using call_catch_never_throws[of ?w2 f d e y] xy by simp
  next
    case (Returned v)
    then show ?thesis unfolding step xy by simp
  next
    case Pending
    then show ?thesis unfolding step xy by simp
  qed
qed

section \<open>Facts about the loops of \<open>getFileInfos\<close>\<close>

lemma pushed_truncate:
  "pushed mn e = (FileInfo.truncate e)\<lparr>filepath := path_join mn (filepath e)\<rparr>"
  by (simp add: pushed_def FileInfo.truncate_def)

lemma files_loop_filter:
  "files_loop mn es files =
     files @ map (\<lambda>e. (FileInfo.truncate e)\<lparr>filepath := path_join mn (filepath e)\<rparr>)
               (filter (\<lambda>e. type e = ''file'') es)"
  by (induction es arbitrary: files) (simp_all add: pushed_truncate)

lemma modules_loop_concat:
  "modules_loop ms files =
     files @ concat (map (\<lambda>m. case contents m of
                                 None \<Rightarrow> []
                               | Some es \<Rightarrow>
                                   map (\<lambda>e. (FileInfo.truncate e)
                                              \<lparr>filepath := path_join (modulename m) (filepath e)\<rparr>)
                                     (filter (\<lambda>e. type e = ''file'') es)) ms)"
  by (induction ms arbitrary: files) (simp_all add: files_loop_filter split: option.splits)

section \<open>Facts about the matcher\<close>

lemma m_suffix_more_close:
  "list_all is_dot ys \<Longrightarrow> m_suffix_more (ys @ CHR '')'' # aft)"
  by (induction ys) simp_all

lemma m_suffix_ok:
  assumes "sf \<noteq> []" "list_all is_dot sf"
  shows "m_suffix ('' ('' @ sf @ CHR '')'' # aft)"
proof -
  obtain c cs where sf: "sf = c # cs" using assms(1) by (cases sf) auto
  then show ?thesis using assms(2) by (simp add: m_suffix_more_close)
qed

lemma m_digits_more_exact:
  assumes "m_name rest = Some g"
  shows "list_all is_digit ds \<Longrightarrow> m_digits_more (ds @ '' - '' @ rest) = Some g"
  using assms by (induction ds) (simp_all add: is_digit_def)

text \<open>
  Whatever the matcher captures is the name part of an occurrence of the shape somewhere
  in the string.
\<close>

lemma m_suffix_more_sound:
  "m_suffix_more s \<Longrightarrow> \<exists>ys aft. s = ys @ CHR '')'' # aft \<and> list_all is_dot ys"
proof (induction s)
  case Nil
  then show ?case by simp
next
  case (Cons c cs)
  show ?case
  proof (cases "is_dot c \<and> m_suffix_more cs")
    case True
    then obtain ys aft where "cs = ys @ CHR '')'' # aft" "list_all is_dot ys"
      using Cons.IH by blast
    then have "c # cs = (c # ys) @ CHR '')'' # aft \<and> list_all is_dot (c # ys)"
      using True by simp
    then show ?thesis by blast
  next
    case False
    then have "c = CHR '')''" using Cons.prems by auto
    then have "c # cs = [] @ CHR '')'' # cs \<and> list_all is_dot []" by simp
    then show ?thesis by blast
  qed
qed

lemma m_suffix_sound:
  assumes "m_suffix s"
  shows "\<exists>sf aft. s = '' ('' @ sf @ CHR '')'' # aft \<and> sf \<noteq> [] \<and> list_all is_dot sf"
proof -
  obtain a b c cs where s: "s = a # b # c # cs"
    using assms by (cases s rule: m_suffix.cases) auto
  then have ab: "a = CHR '' ''" "b = CHR ''(''" "is_dot c" "m_suffix_more cs"
    using assms by auto
  then obtain ys aft where "cs = ys @ CHR '')'' # aft" "list_all is_dot ys"
    using m_suffix_more_sound by blast
  then have "s = '' ('' @ (c # ys) @ CHR '')'' # aft \<and> c # ys \<noteq> [] \<and> list_all is_dot (c # ys)"
    using s ab by simp
  then show ?thesis by blast
qed

lemma m_name_more_sound:
  "m_name_more s = Some g \<Longrightarrow>
     list_all is_dot g \<and>
     (\<exists>sf aft. s = g @ '' ('' @ sf @ CHR '')'' # aft \<and> sf \<noteq> [] \<and> list_all is_dot sf)"
proof (induction s arbitrary: g)
  case Nil
  then show ?case by simp
next
  case (Cons c cs)
  show ?case
  proof (cases "if is_dot c then m_name_more cs else None")
    case None
    then have "m_suffix (c # cs)" "g = []" using Cons.prems by (auto split: if_splits)
    then show ?thesis using m_suffix_sound[of "c # cs"] by auto
  next
    case (Some h)
    then have d: "is_dot c" and h: "m_name_more cs = Some h" by (auto split: if_splits)
    have g: "g = c # h" using Cons.prems Some by simp
    obtain sf aft where "cs = h @ '' ('' @ sf @ CHR '')'' # aft" "sf \<noteq> []" "list_all is_dot sf"
      and "list_all is_dot h"
      using Cons.IH[OF h] by blast
    then show ?thesis using g d by auto
  qed
qed

lemma m_name_sound:
  assumes "m_name s = Some g"
  shows "g \<noteq> [] \<and> list_all is_dot g \<and>
         (\<exists>sf aft. s = g @ '' ('' @ sf @ CHR '')'' # aft \<and> sf \<noteq> [] \<and> list_all is_dot sf)"
proof (cases s)
  case Nil
  then show ?thesis using assms by simp
next
  case (Cons c cs)
  then obtain h where d: "is_dot c" and h: "m_name_more cs = Some h" and g: "g = c # h"
    using assms by (auto split: if_splits)
  show ?thesis using m_name_more_sound[OF h] Cons d g by auto
qed

lemma m_sep_sound:
  assumes "m_sep s = Some g"
  shows "\<exists>rest. s = '' - '' @ rest \<and> m_name rest = Some g"
  using assms by (cases s rule: m_sep.cases) (auto split: if_splits)

lemma m_digits_more_sound:
  "m_digits_more s = Some g \<Longrightarrow>
     \<exists>ds rest. s = ds @ '' - '' @ rest \<and> list_all is_digit ds \<and> m_name rest = Some g"
proof (induction s)
  case Nil
  then show ?case by simp
next
  case (Cons c cs)
  show ?case
  proof (cases "if is_digit c then m_digits_more cs else None")
    case None
    then have "m_sep (c # cs) = Some g" using Cons.prems by simp
    then obtain rest where "c # cs = '' - '' @ rest" "m_name rest = Some g"
      using m_sep_sound by blast
    then have "c # cs = [] @ '' - '' @ rest \<and> list_all is_digit [] \<and> m_name rest = Some g"
      by simp
    then show ?thesis by blast
  next
    case (Some h)
    then have d: "is_digit c" and h: "m_digits_more cs = Some h" by (auto split: if_splits)
    have "h = g" using Cons.prems Some by simp
    then obtain ds rest where "cs = ds @ '' - '' @ rest" "list_all is_digit ds" "m_name rest = Some g"
      using Cons.IH h by blast
    then have "c # cs = (c # ds) @ '' - '' @ rest \<and> list_all is_digit (c # ds) \<and> m_name rest = Some g"
      using d by simp
    then show ?thesis by blast
  qed
qed

lemma m_here_sound:
  assumes "m_here s = Some g"
  shows "\<exists>ds sf aft. s = display_name ds g sf @ aft \<and> display_parts ds g sf"
proof (cases s)
  case Nil
  then show ?thesis using assms by simp
next
  case (Cons c cs)
  then have d: "is_digit c" and m: "m_digits_more cs = Some g"
    using assms by (auto split: if_splits)
  obtain ds rest where cs: "cs = ds @ '' - '' @ rest" and dd: "list_all is_digit ds"
    and r: "m_name rest = Some g"
    using m_digits_more_sound[OF m] by blast
  obtain sf aft where rest: "rest = g @ '' ('' @ sf @ CHR '')'' # aft"
    and p: "g \<noteq> []" "list_all is_dot g" "sf \<noteq> []" "list_all is_dot sf"
    using m_name_sound[OF r] by blast
  have "s = display_name (c # ds) g sf @ aft \<and> display_parts (c # ds) g sf"
    using Cons cs rest d dd p by (simp add: display_name_def display_parts_def)
  then show ?thesis by blast
qed

lemma name_match_sound:
  "name_match s = Some g \<Longrightarrow>
     \<exists>pre ds sf aft. s = pre @ display_name ds g sf @ aft \<and> display_parts ds g sf"
proof (induction s)
  case Nil
  then show ?case by simp
next
  case (Cons c cs)
  show ?case
  proof (cases "m_here (c # cs)")
    case None
    then have "name_match cs = Some g" using Cons.prems by simp
    then obtain pre ds sf aft where "cs = pre @ display_name ds g sf @ aft" "display_parts ds g sf"
      using Cons.IH by blast
    then have "c # cs = (c # pre) @ display_name ds g sf @ aft \<and> display_parts ds g sf" by simp
    then show ?thesis by blast
  next
    case (Some h)
    then have "h = g" using Cons.prems by simp
    then obtain ds sf aft where "c # cs = display_name ds g sf @ aft" "display_parts ds g sf"
      using m_here_sound Some by blast
    then have "c # cs = [] @ display_name ds g sf @ aft \<and> display_parts ds g sf" by simp
    then show ?thesis by blast
  qed
qed

text \<open>
  Wherever the shape occurs in a string, the matcher finds a match: at that place if at
  none before it. What it captures is shorter than the string.
\<close>

lemma m_name_more_reaches:
  "list_all is_dot x \<Longrightarrow> m_suffix v \<Longrightarrow>
     \<exists>g. m_name_more (x @ v) = Some g \<and> length x \<le> length g"
proof (induction x)
  case Nil
  obtain c cs where v: "v = c # cs" using Nil.prems(2) by (cases v) auto
  show ?case
  proof (cases "if is_dot c then m_name_more cs else None")
    case None
    then show ?thesis using v Nil.prems(2) by simp
  next
    case (Some g)
    then show ?thesis using v by simp
  qed
next
  case (Cons c x)
  then obtain g where "m_name_more (x @ v) = Some g" "length x \<le> length g" by auto
  then show ?case using Cons.prems(1) by simp
qed

lemma m_name_complete:
  assumes "nm \<noteq> []" "list_all is_dot nm" "sf \<noteq> []" "list_all is_dot sf"
  shows "\<exists>g. m_name (nm @ '' ('' @ sf @ CHR '')'' # aft) = Some g"
proof -
  obtain c cs where nm: "nm = c # cs" using assms(1) by (cases nm) auto
  have "m_suffix ('' ('' @ sf @ CHR '')'' # aft)" using assms(3,4) by (rule m_suffix_ok)
  then obtain g where "m_name_more (cs @ '' ('' @ sf @ CHR '')'' # aft) = Some g"
    using m_name_more_reaches[of cs "'' ('' @ sf @ CHR '')'' # aft"] assms(2) nm by auto
  then show ?thesis using nm assms(2) by simp
qed

lemma m_digits_more_complete:
  assumes "m_name rest = Some h"
  shows "list_all is_digit ds \<Longrightarrow> \<exists>g. m_digits_more (ds @ '' - '' @ rest) = Some g"
proof (induction ds)
  case Nil
  then show ?case using assms by (simp add: is_digit_def)
next
  case (Cons c ds)
  then obtain g where "m_digits_more (ds @ '' - '' @ rest) = Some g" by auto
  then show ?case using Cons.prems by simp
qed

lemma m_here_complete:
  assumes "display_parts ds nm sf"
  shows "\<exists>g. m_here (display_name ds nm sf @ aft) = Some g"
proof -
  obtain c cs where ds: "ds = c # cs" using assms by (cases ds) (auto simp: display_parts_def)
  obtain h where "m_name (nm @ '' ('' @ sf @ CHR '')'' # aft) = Some h"
    using m_name_complete[of nm sf aft] assms by (auto simp: display_parts_def)
  then obtain g where "m_digits_more (cs @ '' - '' @ nm @ '' ('' @ sf @ CHR '')'' # aft) = Some g"
    using m_digits_more_complete[of "nm @ '' ('' @ sf @ CHR '')'' # aft" h cs] assms ds
    by (auto simp: display_parts_def)
  then show ?thesis using assms ds by (simp add: display_name_def display_parts_def)
qed

lemma name_match_complete:
  assumes "display_parts ds nm sf"
  shows "\<exists>g. name_match (pre @ display_name ds nm sf @ aft) = Some g"
proof (induction pre)
  case Nil
  obtain g where g: "m_here (display_name ds nm sf @ aft) = Some g"
    using m_here_complete[OF assms] by blast
  obtain c cs where "display_name ds nm sf @ aft = c # cs"
    by (cases "display_name ds nm sf @ aft") (auto simp: display_name_def)
  then show ?case using g by simp
next
  case (Cons c pre)
  then obtain g where g: "name_match (pre @ display_name ds nm sf @ aft) = Some g" by blast
  show ?case
  proof (cases "m_here (c # pre @ display_name ds nm sf @ aft)")
    case None
    then show ?thesis using g by simp
  next
    case (Some h)
    then show ?thesis by simp
  qed
qed

lemma name_match_shorter:
  assumes "name_match s = Some g"
  shows "length g < length s"
proof -
  obtain pre ds sf aft where "s = pre @ display_name ds g sf @ aft"
    using name_match_sound[OF assms] by blast
  then show ?thesis by (simp add: display_name_def)
qed

text \<open>
  On a string of the shape, the greedy group stops before the suffix exactly when the
  rest of the pattern, a space and a parenthesised non-empty text, can start nowhere
  later: when the suffix is the last such group of the string.
\<close>

lemma m_name_more_nowhere:
  "(\<And>a v. u = a @ v \<Longrightarrow> \<not> m_suffix v) \<Longrightarrow> m_name_more u = None"
proof (induction u)
  case Nil
  then show ?case by simp
next
  case (Cons c cs)
  have "\<And>a v. cs = a @ v \<Longrightarrow> \<not> m_suffix v"
  proof -
    fix a v assume "cs = a @ v"
    then have "c # cs = (c # a) @ v" by simp
    then show "\<not> m_suffix v" by (rule Cons.prems)
  qed
  then have "m_name_more cs = None" by (rule Cons.IH)
  moreover have "\<not> m_suffix (c # cs)" using Cons.prems[of "[]" "c # cs"] by simp
  ultimately show ?case by simp
qed

lemma m_name_more_stops:
  assumes "sf \<noteq> []" "list_all is_dot sf" "m_name_more (CHR ''('' # sf @ '')'') = None"
  shows "list_all is_dot nm \<Longrightarrow> m_name_more (nm @ '' ('' @ sf @ '')'') = Some nm"
proof (induction nm)
  case Nil
  have "m_suffix ('' ('' @ sf @ '')'')"
    using m_suffix_ok[OF assms(1,2), of "[]"] by simp
  then show ?case using assms(3) by (simp add: is_dot_def)
next
  case (Cons c cs)
  then show ?case by simp
qed

lemma name_match_of_m_name:
  assumes "display_parts ds nm sf" "m_name (nm @ '' ('' @ sf @ '')'') = Some g"
  shows "name_match (display_name ds nm sf) = Some g"
proof -
  obtain c cs where ds: "ds = c # cs" using assms(1) by (cases ds) (auto simp: display_parts_def)
  have "m_digits_more (cs @ '' - '' @ nm @ '' ('' @ sf @ '')'') = Some g"
    using assms ds by (intro m_digits_more_exact) (simp_all add: display_parts_def)
  then show ?thesis using assms(1) ds by (simp add: display_name_def display_parts_def)
qed

lemma name_match_last_group:
  assumes "display_parts ds nm sf"
    and "\<not> (\<exists>a y b. y \<noteq> [] \<and> sf @ '')'' = a @ '' ('' @ y @ '')'' @ b)"
  shows "name_match (display_name ds nm sf) = Some nm"
proof -
  have parts: "nm \<noteq> []" "list_all is_dot nm" "sf \<noteq> []" "list_all is_dot sf"
    using assms(1) by (simp_all add: display_parts_def)
  have "\<And>a v. CHR ''('' # sf @ '')'' = a @ v \<Longrightarrow> \<not> m_suffix v"
  proof
    fix a v assume split: "CHR ''('' # sf @ '')'' = a @ v" and m: "m_suffix v"
    obtain y b where v: "v = '' ('' @ y @ CHR '')'' # b" and y: "y \<noteq> []"
      using m_suffix_sound[OF m] by blast
    show False
    proof (cases a)
      case Nil
      then show ?thesis using split v by simp
    next
      case (Cons x a')
      then have "sf @ '')'' = a' @ '' ('' @ y @ '')'' @ b" using split v by simp
      then show ?thesis using assms(2) y by blast
    qed
  qed
  then have "m_name_more (CHR ''('' # sf @ '')'') = None" by (rule m_name_more_nowhere)
  then have more: "\<And>cs. list_all is_dot cs \<Longrightarrow> m_name_more (cs @ '' ('' @ sf @ '')'') = Some cs"
    using m_name_more_stops[OF parts(3,4)] by blast
  obtain c cs where nm: "nm = c # cs" using parts(1) by (cases nm) auto
  have "m_name (nm @ '' ('' @ sf @ '')'') = Some nm"
    using nm parts(2) more[of cs] by simp
  then show ?thesis using assms(1) by (rule name_match_of_m_name[rotated])
qed

lemma name_match_later_group:
  assumes "display_parts ds nm sf"
    and "y \<noteq> []" and "sf @ '')'' = a @ '' ('' @ y @ '')'' @ b"
  shows "\<exists>g. name_match (display_name ds nm sf) = Some g \<and> length nm < length g"
proof -
  have parts: "nm \<noteq> []" "list_all is_dot nm" "sf \<noteq> []" "list_all is_dot sf"
    using assms(1) by (simp_all add: display_parts_def)
  have "list_all is_dot (sf @ '')'')" using parts(4) by (simp add: is_dot_def)
  then have "list_all is_dot (a @ '' ('' @ y @ '')'' @ b)" using assms(3) by simp
  then have da: "list_all is_dot a" and dy: "list_all is_dot y" by simp_all
  have suf: "m_suffix ('' ('' @ y @ CHR '')'' # b)" using assms(2) dy by (rule m_suffix_ok)
  obtain c cs where nm: "nm = c # cs" using parts(1) by (cases nm) auto
  have dx: "list_all is_dot (cs @ '' ('' @ a)" using parts(2) nm da by (simp add: is_dot_def)
  obtain g where g: "m_name_more ((cs @ '' ('' @ a) @ '' ('' @ y @ CHR '')'' # b) = Some g"
    and len: "length (cs @ '' ('' @ a) \<le> length g"
    using m_name_more_reaches[OF dx suf] by blast
  have "(cs @ '' ('' @ a) @ '' ('' @ y @ CHR '')'' # b = cs @ '' ('' @ sf @ '')''"
    using assms(3) by simp
  then have "m_name_more (cs @ '' ('' @ sf @ '')'') = Some g" using g by simp
  then have "m_name (nm @ '' ('' @ sf @ '')'') = Some (c # g)" using nm parts(2) by simp
  then have "name_match (display_name ds nm sf) = Some (c # g)"
    using assms(1) by (rule name_match_of_m_name[rotated])
  moreover have "length nm < length (c # g)" using len nm by simp
  ultimately show ?thesis by blast
qed

section \<open>Facts about \<open>getCourses\<close>\<close>

lemma getCourses_known_user:
  assumes "userid w = Some u"
  shows "getCourses w =
     (case call w ''core_enrol_get_users_courses'' [(''userid'', Some u)] False of
        (Pending, w2) \<Rightarrow> (Pending, w2)
      | (Thrown e, w2) \<Rightarrow> (Returned (cachedCourses w2), w2)
      | (Returned courses, w2) \<Rightarrow>
          (case courses_map courses of
             None \<Rightarrow> (Returned (cachedCourses w2), w2)
           | Some c \<Rightarrow> (Returned c, w2\<lparr>cachedCourses := c\<rparr>)))"
  using assms by (simp add: getCourses_def)

lemma getCourses_unknown_user:
  assumes "userid w = None" and "getUserID w = (Returned uid, w1)"
  shows "getCourses w =
     (case call w1 ''core_enrol_get_users_courses'' [(''userid'', uid)] False of
        (Pending, w2) \<Rightarrow> (Pending, w2)
      | (Thrown e, w2) \<Rightarrow> (Returned (cachedCourses w2), w2)
      | (Returned courses, w2) \<Rightarrow>
          (case courses_map courses of
             None \<Rightarrow> (Returned (cachedCourses w2), w2)
           | Some c \<Rightarrow> (Returned c, w2\<lparr>cachedCourses := c\<rparr>)))"
  using assms by (simp add: getCourses_def)

text \<open>
  \<open>call\<close> leaves the cache and the user identifier alone. So with the user identifier
  known, \<open>getCourses\<close> never throws, and when the request throws or yields \<open>undefined\<close> it
  returns the cached list and keeps it.
\<close>

lemma call_keeps_cache:
  "cachedCourses (snd (call w f d c)) = cachedCourses w \<and> userid (snd (call w f d c)) = userid w"
  "cachedCourses (snd (tryConnection w f d)) = cachedCourses w
     \<and> userid (snd (tryConnection w f d)) = userid w"
proof (induction w f d c and w f d rule: call_tryConnection.induct)
  case (1 w f d c)
  show ?case
    using 1
    by (subst (1 2) call.simps)
       (auto simp: post_def createLoginWindow_def Let_def emit_def
             split: prod.splits outcome.splits option.splits reply.splits list.splits if_splits)
next
  case (2 w f d)
  then show ?case
    by (subst (1 2) tryConnection.simps)
       (auto simp: emit_def split: prod.splits outcome.splits)
qed

lemma getCourses_known_user_no_throw:
  assumes "userid w = Some u"
  shows "fst (getCourses w) \<noteq> Thrown e"
  using assms by (simp add: getCourses_known_user split: prod.splits outcome.splits option.splits)

lemma getCourses_known_user_fallback:
  assumes "userid w = Some u"
    and "call w ''core_enrol_get_users_courses'' [(''userid'', Some u)] False = (r, w')"
    and "r = Thrown e \<or> r = Returned None"
  shows "getCourses w = (Returned (cachedCourses w), w') \<and> cachedCourses w' = cachedCourses w"
proof -
  have "cachedCourses w' = cachedCourses w"
    using call_keeps_cache(1)[of w "''core_enrol_get_users_courses''" "[(''userid'', Some u)]" False]
      assms(2) by simp
  then show ?thesis using assms by (auto simp: getCourses_known_user)
qed

section \<open>The claims\<close>

text \<open>
  C1. The claim: after a network-level failure of a request (with \<open>catchNetworkError\<close>
  set) the client disconnects, re-attempts the same call every 5 seconds until an attempt
  succeeds, reconnects, and hands the caller the data of the successful re-attempt.

  What the code does, at a first request that fails while the site information is ready
  as the next reply: \<open>disconnected\<close> and \<open>reconnected\<close> are emitted once each, but the
  re-attempt is the \<open>call\<close> of line 82, made while \<open>connected\<close> is false. It returns at
  line 53 without a request, so the promise of the caller resolves with \<open>undefined\<close>, the
  reply that was ready is never asked for, one request was posted in all, and no time
  passed in \<open>setTimeout\<close>.
\<close>

theorem call_failure_resolves_undefined:
  "call (new_client True [Fails, Parsed (SiteInfo 7 ''Ada'')] [])
     ''core_webservice_get_site_info'' [] True
   = (Returned None,
      (new_client True [Parsed (SiteInfo 7 ''Ada'')] [])
        \<lparr>events := [Disconnected, NetworkEvent False, Reconnected, NetworkEvent True],
         requests := [(''core_webservice_get_site_info'', [])]\<rparr>)"
  by (simp add: new_client_def call_fails_catch)

text \<open>
  C2, as the code has it. A \<open>call\<close>, made while connected and logged in, whose reply
  carries the error code \<open>invalidtoken\<close> opens the login window once for that reply.
  When the window reports no login, the call returns \<open>undefined\<close>. When it reports a
  login, the call returns what a new \<open>call\<close> of the same function and data returns in the
  state after the login, made with \<open>catchNetworkError\<close> true whatever the flag of the
  first call was. A further \<open>invalidtoken\<close> reply therefore opens the window again:
  \<open>n\<close> such replies in a row, each followed by a login, open \<open>n\<close> windows and post
  \<open>n + 1\<close> requests, and the caller gets the data of the first reply without the error
  code. This holds for every \<open>n\<close>: the code has no bound on the number of cycles.
\<close>

theorem call_invalid_token_cycles:
  assumes "connected w" and "isLogged w"
  shows "(replies w = Parsed (Exception ''invalidtoken'') # rs \<and> logins w = (True, l) # ls \<longrightarrow>
            call w wsfunction dat catchNetworkError =
              call (w\<lparr>isLogged := l, replies := rs, logins := ls,
                      requests := requests w @ [(wsfunction, dat)],
                      loginWindows := loginWindows w + 1\<rparr>)
                wsfunction dat True)
       \<and> (replies w = replicate n (Parsed (Exception ''invalidtoken'')) @ Parsed p # rs \<and>
          errorcode p \<noteq> Some ''invalidtoken'' \<and>
          logins w = replicate n (True, True) @ ls \<longrightarrow>
            call w wsfunction dat catchNetworkError =
              (Returned (Some p),
               w\<lparr>replies := rs, logins := ls,
                 requests := requests w @ replicate (Suc n) (wsfunction, dat),
                 loginWindows := loginWindows w + n\<rparr>))
       \<and> (replies w = Parsed (Exception ''invalidtoken'') # rs \<and> logins w = (False, l) # ls \<longrightarrow>
            call w wsfunction dat catchNetworkError =
              (Returned None,
               w\<lparr>isLogged := l, replies := rs, logins := ls,
                 requests := requests w @ [(wsfunction, dat)],
                 loginWindows := loginWindows w + 1\<rparr>))"
proof (intro conjI impI)
  assume "replies w = Parsed (Exception ''invalidtoken'') # rs \<and> logins w = (True, l) # ls"
  then show "call w wsfunction dat catchNetworkError =
              call (w\<lparr>isLogged := l, replies := rs, logins := ls,
                      requests := requests w @ [(wsfunction, dat)],
                      loginWindows := loginWindows w + 1\<rparr>)
                wsfunction dat True"
    using assms by (simp add: call_invalid_logged)
next
  assume "replies w = Parsed (Exception ''invalidtoken'') # rs \<and> logins w = (False, l) # ls"
  then show "call w wsfunction dat catchNetworkError =
              (Returned None,
               w\<lparr>isLogged := l, replies := rs, logins := ls,
                 requests := requests w @ [(wsfunction, dat)],
                 loginWindows := loginWindows w + 1\<rparr>)"
    using assms by (simp add: call_invalid_declined)
next
  assume a: "replies w = replicate n (Parsed (Exception ''invalidtoken'')) @ Parsed p # rs \<and>
          errorcode p \<noteq> Some ''invalidtoken'' \<and>
          logins w = replicate n (True, True) @ ls"
  have "\<And>w c. connected w \<Longrightarrow> isLogged w \<Longrightarrow>
          replies w = replicate n (Parsed (Exception ''invalidtoken'')) @ Parsed p # rs \<Longrightarrow>
          logins w = replicate n (True, True) @ ls \<Longrightarrow>
          call w wsfunction dat c =
              (Returned (Some p),
               w\<lparr>replies := rs, logins := ls,
                 requests := requests w @ replicate (Suc n) (wsfunction, dat),
                 loginWindows := loginWindows w + n\<rparr>)"
  proof (induction n)
    case 0
    then show ?case using a by (simp add: call_parsed)
  next
    case (Suc n)
    let ?w2 = "w\<lparr>isLogged := True,
                  replies := replicate n (Parsed (Exception ''invalidtoken'')) @ Parsed p # rs,
                  logins := replicate n (True, True) @ ls,
                  requests := requests w @ [(wsfunction, dat)],
                  loginWindows := loginWindows w + 1\<rparr>"
    have "call w wsfunction dat c = call ?w2 wsfunction dat True"
      using Suc.prems by (simp add: call_invalid_logged)
    also have "\<dots> = (Returned (Some p),
               ?w2\<lparr>replies := rs, logins := ls,
                 requests := requests ?w2 @ replicate (Suc n) (wsfunction, dat),
                 loginWindows := loginWindows ?w2 + n\<rparr>)"
      using Suc.prems by (intro Suc.IH) simp_all
    finally show ?case using Suc.prems(2) by (simp add: replicate_append_same)
  qed
  then show "call w wsfunction dat catchNetworkError =
              (Returned (Some p),
               w\<lparr>replies := rs, logins := ls,
                 requests := requests w @ replicate (Suc n) (wsfunction, dat),
                 loginWindows := loginWindows w + n\<rparr>)"
    using assms a by simp
qed

theorem call_invalid_token_cycles_witness:
  "call (new_client True [Parsed (Exception ''invalidtoken''), Fails, Parsed (SiteInfo 7 ''Ada'')]
           [(True, True)])
     ''core_webservice_get_site_info'' [] False
     = call ((new_client True [Fails, Parsed (SiteInfo 7 ''Ada'')] [])
               \<lparr>requests := [(''core_webservice_get_site_info'', [])], loginWindows := 1\<rparr>)
         ''core_webservice_get_site_info'' [] True
   \<and> fst (call (new_client True
                  [Parsed (Exception ''invalidtoken''), Fails, Parsed (SiteInfo 7 ''Ada'')]
                  [(True, True)])
            ''core_webservice_get_site_info'' [] False) = Returned None
   \<and> call (new_client True
           [Parsed (Exception ''invalidtoken''), Parsed (Exception ''invalidtoken''),
            Parsed (Exception ''invalidtoken''), Parsed (SiteInfo 7 ''Ada'')]
           [(True, True), (True, True), (True, True)])
     ''core_webservice_get_site_info'' [] True
     = (Returned (Some (SiteInfo 7 ''Ada'')),
        (new_client True [] [])
          \<lparr>requests := replicate 4 (''core_webservice_get_site_info'', []), loginWindows := 3\<rparr>)
   \<and> call (new_client True [Parsed (Exception ''invalidtoken''), Parsed (SiteInfo 7 ''Ada'')]
              [(False, False)])
       ''core_webservice_get_site_info'' [] True
     = (Returned None,
        (new_client False [Parsed (SiteInfo 7 ''Ada'')] [])
          \<lparr>requests := [(''core_webservice_get_site_info'', [])], loginWindows := 1\<rparr>)"
proof -
  let ?f = "''core_webservice_get_site_info''"
  let ?inv = "Parsed (Exception ''invalidtoken'')"
  let ?ada = "Parsed (SiteInfo 7 ''Ada'')"
  let ?a = "new_client True [?inv, Fails, ?ada] [(True, True)]"
  let ?a2 = "(new_client True [Fails, ?ada] [])\<lparr>requests := [(?f, [])], loginWindows := 1\<rparr>"
  have step: "call ?a ?f [] False = call ?a2 ?f [] True"
    using call_invalid_token_cycles[where w = ?a and rs = "[Fails, ?ada]" and l = True and ls = "[]"
            and wsfunction = ?f and dat = "[]" and catchNetworkError = False]
    by (simp add: new_client_def)
  have caught: "fst (call ?a2 ?f [] True) = Returned None"
    by (simp add: call_fails_catch new_client_def)
  have three: "call (new_client True [?inv, ?inv, ?inv, ?ada] [(True, True), (True, True), (True, True)])
                 ?f [] True
     = (Returned (Some (SiteInfo 7 ''Ada'')),
        (new_client True [] [])\<lparr>requests := replicate 4 (?f, []), loginWindows := 3\<rparr>)"
    using call_invalid_token_cycles[where
          w = "new_client True [?inv, ?inv, ?inv, ?ada] [(True, True), (True, True), (True, True)]"
          and n = 3 and p = "SiteInfo 7 ''Ada''" and rs = "[]" and ls = "[]"
          and wsfunction = ?f and dat = "[]" and catchNetworkError = True]
    by (simp add: new_client_def numeral_3_eq_3 eval_nat_numeral)
  have declined: "call (new_client True [?inv, ?ada] [(False, False)]) ?f [] True
     = (Returned None,
        (new_client False [?ada] [])\<lparr>requests := [(?f, [])], loginWindows := 1\<rparr>)"
    using call_invalid_token_cycles[where w = "new_client True [?inv, ?ada] [(False, False)]"
          and rs = "[?ada]" and ls = "[]" and l = False
          and wsfunction = ?f and dat = "[]" and catchNetworkError = True]
    by (simp add: new_client_def)
  show ?thesis using step caught three declined by simp
qed

text \<open>
  C2 as it was stated fails: after a login, a second \<open>invalidtoken\<close> reply does not end
  the call with \<open>undefined\<close>. The window is opened a second time, a third request is
  posted, and the caller gets its data.
\<close>

theorem call_invalid_token_twice:
  "fst (call (new_client True
           [Parsed (Exception ''invalidtoken''), Parsed (Exception ''invalidtoken''),
            Parsed (SiteInfo 7 ''Ada'')]
           [(True, True), (True, True)])
     ''core_webservice_get_site_info'' [] True) = Returned (Some (SiteInfo 7 ''Ada''))
   \<and> loginWindows (snd (call (new_client True
           [Parsed (Exception ''invalidtoken''), Parsed (Exception ''invalidtoken''),
            Parsed (SiteInfo 7 ''Ada'')]
           [(True, True), (True, True)])
     ''core_webservice_get_site_info'' [] True)) = 2
   \<and> length (requests (snd (call (new_client True
           [Parsed (Exception ''invalidtoken''), Parsed (Exception ''invalidtoken''),
            Parsed (SiteInfo 7 ''Ada'')]
           [(True, True), (True, True)])
     ''core_webservice_get_site_info'' [] True))) = 3"
  by (simp add: new_client_def call_invalid_logged call_parsed)

text \<open>
  C3, as the code has it. For a display name \<open><digits> - <name> (<suffix>)\<close>, with ASCII
  digits and a name and a suffix that are non-empty and free of line terminators, the
  course gets the name \<open><name>\<close> if and only if no space followed by a parenthesised
  non-empty text occurs inside \<open><suffix>)\<close>, that is, when the suffix is the last such
  group of the display name. The pattern is not anchored: a display name that holds the
  shape anywhere, before or after other text, is changed, and every changed name is the
  name part of an occurrence of the shape inside the display name; a display name in
  which the shape occurs nowhere stays as it is. The identifier is kept. Whenever the
  request for the courses yields a list, \<open>getCourses\<close> returns (and caches) the list of
  the courses so renamed, with the user identifier known beforehand or fetched first by
  \<open>getUserID\<close>.
\<close>

theorem toCourse_name:
  "(display_parts ds nm sf \<and> fullname c = display_name ds nm sf \<longrightarrow>
      (course_name (toCourse c) = nm
         \<longleftrightarrow> \<not> (\<exists>a y b. y \<noteq> [] \<and> sf @ '')'' = a @ '' ('' @ y @ '')'' @ b)))
   \<and> (display_parts dsa nma sfa \<and> fullname c = pre @ display_name dsa nma sfa @ aft \<longrightarrow>
        course_name (toCourse c) \<noteq> fullname c)
   \<and> (course_name (toCourse c) = fullname c
        \<or> (\<exists>pre' ds' sf' aft'. display_parts ds' (course_name (toCourse c)) sf'
              \<and> fullname c = pre' @ display_name ds' (course_name (toCourse c)) sf' @ aft'))
   \<and> course_id (toCourse c) = raw_id c
   \<and> (userid w = Some u
        \<and> call w ''core_enrol_get_users_courses'' [(''userid'', Some u)] False
            = (Returned (Some (CourseList cs)), w')
      \<longrightarrow> getCourses w = (Returned (map toCourse cs), w'\<lparr>cachedCourses := map toCourse cs\<rparr>))
   \<and> (userid w = None \<and> getUserID w = (Returned uid, wu)
        \<and> call wu ''core_enrol_get_users_courses'' [(''userid'', uid)] False
            = (Returned (Some (CourseList cs)), w')
      \<longrightarrow> getCourses w = (Returned (map toCourse cs), w'\<lparr>cachedCourses := map toCourse cs\<rparr>))"
proof (intro conjI impI)
  assume a: "display_parts ds nm sf \<and> fullname c = display_name ds nm sf"
  show "course_name (toCourse c) = nm
         \<longleftrightarrow> \<not> (\<exists>a y b. y \<noteq> [] \<and> sf @ '')'' = a @ '' ('' @ y @ '')'' @ b)"
  proof
    assume eq: "course_name (toCourse c) = nm"
    show "\<not> (\<exists>a y b. y \<noteq> [] \<and> sf @ '')'' = a @ '' ('' @ y @ '')'' @ b)"
    proof
      assume "\<exists>a y b. y \<noteq> [] \<and> sf @ '')'' = a @ '' ('' @ y @ '')'' @ b"
      then obtain a' y b where "y \<noteq> []" "sf @ '')'' = a' @ '' ('' @ y @ '')'' @ b" by blast
      then obtain g where "name_match (display_name ds nm sf) = Some g" "length nm < length g"
        using name_match_later_group[of ds nm sf y a' b] a by blast
      then have "length nm < length (course_name (toCourse c))"
        using a by (simp add: toCourse_def)
      then show False using eq by simp
    qed
  next
    assume "\<not> (\<exists>a y b. y \<noteq> [] \<and> sf @ '')'' = a @ '' ('' @ y @ '')'' @ b)"
    then have "name_match (display_name ds nm sf) = Some nm"
      using name_match_last_group[of ds nm sf] a by blast
    then show "course_name (toCourse c) = nm" using a by (simp add: toCourse_def)
  qed
next
  assume a: "display_parts dsa nma sfa \<and> fullname c = pre @ display_name dsa nma sfa @ aft"
  then obtain g where g: "name_match (fullname c) = Some g"
    using name_match_complete[of dsa nma sfa pre aft] by auto
  then have "length g < length (fullname c)" by (rule name_match_shorter)
  moreover have "course_name (toCourse c) = g" using g by (simp add: toCourse_def)
  ultimately show "course_name (toCourse c) \<noteq> fullname c" by auto
next
  show "course_name (toCourse c) = fullname c
        \<or> (\<exists>pre' ds' sf' aft'. display_parts ds' (course_name (toCourse c)) sf'
              \<and> fullname c = pre' @ display_name ds' (course_name (toCourse c)) sf' @ aft')"
  proof (cases "name_match (fullname c)")
    case None
    then show ?thesis by (simp add: toCourse_def)
  next
    case (Some g)
    then have g: "course_name (toCourse c) = g" by (simp add: toCourse_def)
    obtain pre' ds' sf' aft' where "fullname c = pre' @ display_name ds' g sf' @ aft'"
      and "display_parts ds' g sf'"
      using name_match_sound[OF Some] by blast
    then show ?thesis unfolding g by blast
  qed
next
  show "course_id (toCourse c) = raw_id c" by (simp add: toCourse_def Let_def)
next
  assume "userid w = Some u
        \<and> call w ''core_enrol_get_users_courses'' [(''userid'', Some u)] False
            = (Returned (Some (CourseList cs)), w')"
  then show "getCourses w = (Returned (map toCourse cs), w'\<lparr>cachedCourses := map toCourse cs\<rparr>)"
    by (simp add: getCourses_known_user)
next
  assume "userid w = None \<and> getUserID w = (Returned uid, wu)
        \<and> call wu ''core_enrol_get_users_courses'' [(''userid'', uid)] False
            = (Returned (Some (CourseList cs)), w')"
  then show "getCourses w = (Returned (map toCourse cs), w'\<lparr>cachedCourses := map toCourse cs\<rparr>)"
    by (simp add: getCourses_unknown_user)
qed

theorem toCourse_name_witness:
  "course_name (toCourse \<lparr>raw_id = 3, fullname = ''2023 - Systems Programming (SP)''\<rparr>)
     = ''Systems Programming''
   \<and> course_name (toCourse \<lparr>raw_id = 5, fullname = ''1 - A (p(a))''\<rparr>) = ''A''
   \<and> course_name (toCourse \<lparr>raw_id = 1, fullname = ''Lab 2 - Reti (A)''\<rparr>) \<noteq> ''Lab 2 - Reti (A)''
   \<and> course_name (toCourse \<lparr>raw_id = 1, fullname = ''Lab 2 - Reti (A)''\<rparr>) = ''Reti''
   \<and> course_name (toCourse \<lparr>raw_id = 6, fullname = ''7 - Fisica (B) bis''\<rparr>) \<noteq> ''7 - Fisica (B) bis''
   \<and> course_name (toCourse \<lparr>raw_id = 6, fullname = ''7 - Fisica (B) bis''\<rparr>) = ''Fisica''
   \<and> getCourses (new_client True
                    [Parsed (SiteInfo 7 ''Ada''),
                     Parsed (CourseList [\<lparr>raw_id = 3, fullname = ''2023 - Systems Programming (SP)''\<rparr>,
                                         \<lparr>raw_id = 1, fullname = ''Lab 2 - Reti (A)''\<rparr>,
                                         \<lparr>raw_id = 4, fullname = ''Analisi 1''\<rparr>])] [])
     = (Returned [\<lparr>course_id = 3, course_name = ''Systems Programming''\<rparr>,
                  \<lparr>course_id = 1, course_name = ''Reti''\<rparr>,
                  \<lparr>course_id = 4, course_name = ''Analisi 1''\<rparr>],
        (new_client True [] [])
          \<lparr>userid := Some 7, username := Some ''Ada'',
            cachedCourses := [\<lparr>course_id = 3, course_name = ''Systems Programming''\<rparr>,
                              \<lparr>course_id = 1, course_name = ''Reti''\<rparr>,
                              \<lparr>course_id = 4, course_name = ''Analisi 1''\<rparr>],
            events := [Username (Some ''Ada'')],
            requests := [(''core_webservice_get_site_info'', []),
                         (''core_enrol_get_users_courses'', [(''userid'', Some 7)])]\<rparr>)
   \<and> getCourses ((new_client True
                     [Parsed (CourseList [\<lparr>raw_id = 3, fullname = ''2023 - Systems Programming (SP)''\<rparr>])] [])
                   \<lparr>userid := Some 7\<rparr>)
     = (Returned [\<lparr>course_id = 3, course_name = ''Systems Programming''\<rparr>],
        (new_client True [] [])
          \<lparr>userid := Some 7,
            cachedCourses := [\<lparr>course_id = 3, course_name = ''Systems Programming''\<rparr>],
            requests := [(''core_enrol_get_users_courses'', [(''userid'', Some 7)])]\<rparr>)"
proof -
  let ?sp = "\<lparr>raw_id = 3, fullname = ''2023 - Systems Programming (SP)''\<rparr>"
  let ?pa = "\<lparr>raw_id = 5, fullname = ''1 - A (p(a))''\<rparr>"
  let ?lab = "\<lparr>raw_id = 1, fullname = ''Lab 2 - Reti (A)''\<rparr>"
  let ?cs = "[?sp, ?lab, \<lparr>raw_id = 4, fullname = ''Analisi 1''\<rparr>]"
  let ?w = "new_client True [Parsed (SiteInfo 7 ''Ada''), Parsed (CourseList ?cs)] []"
  let ?w1 = "(new_client True [Parsed (CourseList ?cs)] [])
               \<lparr>userid := Some 7, username := Some ''Ada'', events := [Username (Some ''Ada'')],
                 requests := [(''core_webservice_get_site_info'', [])]\<rparr>"
  let ?w2 = "(new_client True [] [])
               \<lparr>userid := Some 7, username := Some ''Ada'', events := [Username (Some ''Ada'')],
                 requests := [(''core_webservice_get_site_info'', []),
                              (''core_enrol_get_users_courses'', [(''userid'', Some 7)])]\<rparr>"
  let ?v = "(new_client True [Parsed (CourseList [?sp])] [])\<lparr>userid := Some 7\<rparr>"
  let ?v' = "(new_client True [] [])
               \<lparr>userid := Some 7,
                 requests := [(''core_enrol_get_users_courses'', [(''userid'', Some 7)])]\<rparr>"
  have no_group: "\<not> (\<exists>a y b. y \<noteq> [] \<and> s @ '')'' = a @ '' ('' @ y @ '')'' @ b)"
    if "CHR '' '' \<notin> set s" for s :: string
  proof
    assume "\<exists>a y b. y \<noteq> [] \<and> s @ '')'' = a @ '' ('' @ y @ '')'' @ b"
    then obtain a y b where eq: "s @ '')'' = a @ '' ('' @ y @ '')'' @ b" by blast
    have "CHR '' '' \<in> set (a @ '' ('' @ y @ '')'' @ b)" by simp
    then have "CHR '' '' \<in> set (s @ '')'')" using eq by simp
    then show False using that by simp
  qed
  have p1: "display_parts ''2023'' ''Systems Programming'' ''SP''"
    by (simp add: display_parts_def is_digit_def is_dot_def)
  have s1: "fullname ?sp = display_name ''2023'' ''Systems Programming'' ''SP''"
    by (simp add: display_name_def)
  have n1: "course_name (toCourse ?sp) = ''Systems Programming''"
    using toCourse_name[where ds = "''2023''" and nm = "''Systems Programming''" and sf = "''SP''"
            and c = ?sp] p1 s1 no_group[of "''SP''"]
    by simp
  have p2: "display_parts ''1'' ''A'' ''p(a)''"
    by (simp add: display_parts_def is_digit_def is_dot_def)
  have s2: "fullname ?pa = display_name ''1'' ''A'' ''p(a)''"
    by (simp add: display_name_def)
  have n2: "course_name (toCourse ?pa) = ''A''"
    using toCourse_name[where ds = "''1''" and nm = "''A''" and sf = "''p(a)''" and c = ?pa]
      p2 s2 no_group[of "''p(a)''"]
    by simp
  have p3: "display_parts ''2'' ''Reti'' ''A''"
    by (simp add: display_parts_def is_digit_def is_dot_def)
  have s3: "fullname ?lab = ''Lab '' @ display_name ''2'' ''Reti'' ''A'' @ []"
    by (simp add: display_name_def)
  have n3: "course_name (toCourse ?lab) \<noteq> ''Lab 2 - Reti (A)''"
    using toCourse_name[where dsa = "''2''" and nma = "''Reti''" and sfa = "''A''" and c = ?lab
            and pre = "''Lab ''" and aft = "[]"] p3 s3
    by simp
  have n4: "course_name (toCourse ?lab) = ''Reti''"
    by (simp add: toCourse_def is_digit_def is_dot_def)
  let ?bis = "\<lparr>raw_id = 6, fullname = ''7 - Fisica (B) bis''\<rparr>"
  have p5: "display_parts ''7'' ''Fisica'' ''B''"
    by (simp add: display_parts_def is_digit_def is_dot_def)
  have s5: "fullname ?bis = [] @ display_name ''7'' ''Fisica'' ''B'' @ '' bis''"
    by (simp add: display_name_def)
  have n5: "course_name (toCourse ?bis) \<noteq> ''7 - Fisica (B) bis''"
    using toCourse_name[where dsa = "''7''" and nma = "''Fisica''" and sfa = "''B''" and c = ?bis
            and pre = "[]" and aft = "'' bis''"] p5 s5
    by simp
  have n6: "course_name (toCourse ?bis) = ''Fisica''"
    by (simp add: toCourse_def is_digit_def is_dot_def)
  have t: "map toCourse ?cs = [\<lparr>course_id = 3, course_name = ''Systems Programming''\<rparr>,
                               \<lparr>course_id = 1, course_name = ''Reti''\<rparr>,
                               \<lparr>course_id = 4, course_name = ''Analisi 1''\<rparr>]"
    by (simp add: toCourse_def is_digit_def is_dot_def)
  have t1: "map toCourse [?sp] = [\<lparr>course_id = 3, course_name = ''Systems Programming''\<rparr>]"
    by (simp add: toCourse_def is_digit_def is_dot_def)
  have u0: "userid ?w = None" by (simp add: new_client_def)
  have gu: "getUserID ?w = (Returned (Some 7), ?w1)"
    by (simp add: getUserID_def call_parsed new_client_def emit_def)
  have c1: "call ?w1 ''core_enrol_get_users_courses'' [(''userid'', Some 7)] False
             = (Returned (Some (CourseList ?cs)), ?w2)"
    by (simp add: call_parsed new_client_def)
  have g1: "getCourses ?w = (Returned (map toCourse ?cs), ?w2\<lparr>cachedCourses := map toCourse ?cs\<rparr>)"
    using toCourse_name[where w = ?w and uid = "Some 7" and wu = ?w1 and cs = ?cs and w' = ?w2]
      u0 gu c1
    by blast
  have u2: "userid ?v = Some 7" by (simp add: new_client_def)
  have c2: "call ?v ''core_enrol_get_users_courses'' [(''userid'', Some 7)] False
             = (Returned (Some (CourseList [?sp])), ?v')"
    by (simp add: call_parsed new_client_def)
  have g2: "getCourses ?v = (Returned (map toCourse [?sp]), ?v'\<lparr>cachedCourses := map toCourse [?sp]\<rparr>)"
    using toCourse_name[where w = ?v and u = 7 and cs = "[?sp]" and w' = ?v'] u2 c2
    by blast
  show ?thesis
    using n1 n2 n3 n4 n5 n6 g1 g2 unfolding t t1 by (simp add: new_client_def)
qed

text \<open>
  C3 as it was stated fails: \<open>Lab 2 - Reti (A)\<close> does not start with a digit, so it is
  not of the shape, and yet the course is renamed to \<open>Reti\<close>: the pattern matches inside
  the display name.
\<close>

theorem toCourse_name_changes:
  "\<not> is_digit (hd ''Lab 2 - Reti (A)'')
   \<and> course_name (toCourse \<lparr>raw_id = 1, fullname = ''Lab 2 - Reti (A)''\<rparr>) = ''Reti''
   \<and> ''Reti'' \<noteq> ''Lab 2 - Reti (A)''"
  by (simp add: toCourse_def is_digit_def is_dot_def)

text \<open>
  C4. When the contents listing of the course has a section named \<open>Materiali\<close>,
  \<open>getFileInfos\<close> returns, module by module and in the order of the listing, the entries
  of type \<open>file\<close> of the modules of the first such section, and nothing else; each entry
  comes without its \<open>type\<close> and with the name of its module joined in front of its
  \<open>filepath\<close> by \<open>path.join\<close>. A module without \<open>contents\<close> adds nothing. Joining
  \<open>Lecture 1\<close> and the empty path gives \<open>Lecture 1\<close>.
\<close>

theorem getFileInfos_materials_files:
  assumes "call w ''core_course_get_contents'' [(''courseid'', Some courseid)] True
             = (Returned (Some (CourseContents cs)), w')"
    and "find (\<lambda>c. section_name c = ''Materiali'') cs = Some mat"
  shows "getFileInfos w courseid =
           (Returned
              (concat (map (\<lambda>m. case contents m of
                                   None \<Rightarrow> []
                                 | Some es \<Rightarrow>
                                     map (\<lambda>e. (FileInfo.truncate e)
                                                \<lparr>filepath := path_join (modulename m) (filepath e)\<rparr>)
                                       (filter (\<lambda>e. type e = ''file'') es))
                        (modules mat))),
            w')
         \<and> path_join ''Lecture 1'' '''' = ''Lecture 1''"
proof -
  have "getFileInfos w courseid = (Returned (modules_loop (modules mat) []), w')"
    using assms by (simp add: getFileInfos_def)
  moreover have "path_join ''Lecture 1'' '''' = ''Lecture 1''"
    by (simp add: path_join_def path_normalize_def)
  ultimately show ?thesis by (simp add: modules_loop_concat)
qed

theorem getFileInfos_materials_files_witness:
  "getFileInfos (new_client True [Parsed (CourseContents with_materials)] []) 3
     = (Returned [\<lparr>filename = ''slides.pdf'', filepath = ''Lecture 1'', filesize = 1024,
                   fileurl = ''https://webeep.polimi.it/f/1'', timecreated = 10,
                   timemodified = 20\<rparr>],
        (new_client True [] [])
          \<lparr>requests := [(''core_course_get_contents'', [(''courseid'', Some 3)])]\<rparr>)"
proof -
  have c: "call (new_client True [Parsed (CourseContents with_materials)] [])
             ''core_course_get_contents'' [(''courseid'', Some 3)] True
           = (Returned (Some (CourseContents with_materials)),
              (new_client True [] [])
                \<lparr>requests := [(''core_course_get_contents'', [(''courseid'', Some 3)])]\<rparr>)"
    by (simp add: call_parsed new_client_def)
  have f: "find (\<lambda>c. section_name c = ''Materiali'') with_materials
             = Some \<lparr>section_id = 2, section_name = ''Materiali'',
                     modules = [lecture1, \<lparr>mod_id = 6, modulename = ''Empty'', contents = None\<rparr>]\<rparr>"
    by (simp add: with_materials_def)
  show ?thesis
    using getFileInfos_materials_files[OF c f]
    by (simp add: lecture1_def slides_def link_def FileInfo.truncate_def)
qed

text \<open>
  C5. When the contents listing of the course has no section named \<open>Materiali\<close>,
  \<open>getFileInfos\<close> returns the empty list: the course is skipped, nothing is thrown.
\<close>

theorem getFileInfos_no_materials:
  assumes "call w ''core_course_get_contents'' [(''courseid'', Some courseid)] True
             = (Returned (Some (CourseContents cs)), w')"
    and "\<forall>c \<in> set cs. section_name c \<noteq> ''Materiali''"
  shows "getFileInfos w courseid = (Returned [], w')"
proof -
  have "find (\<lambda>c. section_name c = ''Materiali'') cs = None"
    using assms(2) by (simp add: find_None_iff)
  then show ?thesis using assms(1) by (simp add: getFileInfos_def)
qed

theorem getFileInfos_no_materials_witness:
  "getFileInfos (new_client True [Parsed (CourseContents forum_only)] []) 3
     = (Returned [],
        (new_client True [] [])
          \<lparr>requests := [(''core_course_get_contents'', [(''courseid'', Some 3)])]\<rparr>)"
proof -
  have c: "call (new_client True [Parsed (CourseContents forum_only)] [])
             ''core_course_get_contents'' [(''courseid'', Some 3)] True
           = (Returned (Some (CourseContents forum_only)),
              (new_client True [] [])
                \<lparr>requests := [(''core_course_get_contents'', [(''courseid'', Some 3)])]\<rparr>)"
    by (simp add: call_parsed new_client_def)
  have n: "\<forall>c \<in> set forum_only. section_name c \<noteq> ''Materiali''"
    by (simp add: forum_only_def)
  show ?thesis using getFileInfos_no_materials[OF c n] .
qed

text \<open>
  C6. The claim: \<open>getCourses\<close> never throws; when the fetch fails it returns the cached
  list. What the code does on a client that was just made, when nobody is logged in: the
  user identifier is not known yet, so line 106 calls \<open>getUserID\<close>, whose \<open>call\<close> yields
  \<open>undefined\<close>; destructuring it throws a \<open>TypeError\<close>, and line 106 stands before the
  \<open>try\<close>, so \<open>getCourses\<close> rejects with it.
\<close>

theorem getCourses_throws_when_not_logged:
  "getCourses (new_client False [] []) = (Thrown TypeError, new_client False [] [])"
  by (simp add: getCourses_def getUserID_def new_client_def call_guard)

text \<open>
  C7. A \<open>call\<close> made while the client is marked disconnected, or while the login manager
  reports that nobody is logged in, returns \<open>undefined\<close> and leaves everything as it was:
  no request is posted, no reply is used up, no event is emitted.
\<close>

theorem call_short_circuit:
  assumes "\<not> connected w \<or> \<not> isLogged w"
  shows "call w wsfunction dat catchNetworkError = (Returned None, w)
         \<and> requests (snd (call w wsfunction dat catchNetworkError)) = requests w"
  using assms by (auto simp: call.simps)

theorem call_short_circuit_witness:
  "call (new_client False [Parsed (SiteInfo 7 ''Ada'')] []) ''core_webservice_get_site_info'' [] True
     = (Returned None, new_client False [Parsed (SiteInfo 7 ''Ada'')] [])
   \<and> call ((new_client True [Parsed (SiteInfo 7 ''Ada'')] [])\<lparr>connected := False\<rparr>)
        ''core_webservice_get_site_info'' [] True
     = (Returned None, (new_client True [Parsed (SiteInfo 7 ''Ada'')] [])\<lparr>connected := False\<rparr>)"
  using call_short_circuit[of "new_client False [Parsed (SiteInfo 7 ''Ada'')] []"
          "''core_webservice_get_site_info''" "[]" True]
        call_short_circuit[of
          "(new_client True [Parsed (SiteInfo 7 ''Ada'')] [])\<lparr>connected := False\<rparr>"
          "''core_webservice_get_site_info''" "[]" True]
  by (simp add: new_client_def)

text \<open>
  C8. The claim: once \<open>connected\<close> is false, it becomes true again only through a
  re-attempt of the call that succeeds. What the code does while the network stays down
  (every scripted request fails): the first request fails, the flag is set to false, and
  the re-attempt of \<open>tryConnection\<close>, which returns at line 53 without a request, counts as
  a success. The flag is true again when the call ends, the two failures still to come
  were never met, and no time passed. The same step from any disconnected state: it
  reconnects at once.
\<close>

theorem reconnects_while_network_down:
  "call (new_client True [Fails, Fails, Fails] [])
     ''core_course_get_contents'' [(''courseid'', Some 3)] True
   = (Returned None,
      (new_client True [Fails, Fails] [])
        \<lparr>events := [Disconnected, NetworkEvent False, Reconnected, NetworkEvent True],
         requests := [(''core_course_get_contents'', [(''courseid'', Some 3)])]\<rparr>)
   \<and> connected (snd (call (new_client True [Fails, Fails, Fails] [])
         ''core_course_get_contents'' [(''courseid'', Some 3)] True)) = True
   \<and> tryConnection ((new_client True [Fails, Fails] [])\<lparr>connected := False\<rparr>)
         ''core_course_get_contents'' [(''courseid'', Some 3)]
     = (Returned None,
        (new_client True [Fails, Fails] [])\<lparr>events := [Reconnected, NetworkEvent True]\<rparr>)"
  by (simp add: new_client_def call_fails_catch tryConnection_disconnected)

text \<open>
  C9. \<open>getFileInfos\<close> called while the client is marked disconnected or nobody is logged
  in: the underlying \<open>call\<close> yields \<open>undefined\<close>, and \<open>contents.find\<close> on it rejects the
  promise with a \<open>TypeError\<close>. The method does not return the empty list there.
\<close>

theorem getFileInfos_without_result:
  assumes "\<not> connected w \<or> \<not> isLogged w"
  shows "call w ''core_course_get_contents'' [(''courseid'', Some courseid)] True
           = (Returned None, w)
         \<and> getFileInfos w courseid = (Thrown TypeError, w)"
  using call_guard[OF assms] by (simp add: getFileInfos_def)

theorem getFileInfos_without_result_witness:
  "getFileInfos (new_client False [] []) 3 = (Thrown TypeError, new_client False [] [])
   \<and> getFileInfos ((new_client True [] [])\<lparr>connected := False\<rparr>) 3
       = (Thrown TypeError, (new_client True [] [])\<lparr>connected := False\<rparr>)"
  using getFileInfos_without_result[of "new_client False [] []" 3]
        getFileInfos_without_result[of "(new_client True [] [])\<lparr>connected := False\<rparr>" 3]
  by (simp add: new_client_def)

text \<open>
  C10. The claim: the cache starts empty, so a \<open>getCourses\<close> that fails before the first
  successful fetch returns the empty list. What the code does on a client that was just
  made, when the request for the site information is answered with \<open>invalidtoken\<close> and
  the login window is closed without a login: the cache is empty, \<open>getUserID\<close> throws a
  \<open>TypeError\<close> on the \<open>undefined\<close> it gets, and \<open>getCourses\<close> rejects with it instead of
  returning the empty list. When the site information arrives and only the request for
  the courses fails, the empty list is returned.
\<close>

theorem getCourses_throws_before_first_fetch:
  "cachedCourses (new_client True [Parsed (Exception ''invalidtoken'')] [(False, False)]) = []
   \<and> getCourses (new_client True [Parsed (Exception ''invalidtoken'')] [(False, False)])
     = (Thrown TypeError,
        (new_client False [] [])
          \<lparr>requests := [(''core_webservice_get_site_info'', [])], loginWindows := 1\<rparr>)
   \<and> fst (getCourses (new_client True [Parsed (SiteInfo 7 ''Ada''), Fails] [])) = Returned []"
proof -
  have c: "call (new_client True [Parsed (Exception ''invalidtoken'')] [(False, False)])
             ''core_webservice_get_site_info'' [] True
           = (Returned None,
              (new_client False [] [])
                \<lparr>requests := [(''core_webservice_get_site_info'', [])], loginWindows := 1\<rparr>)"
    by (simp add: new_client_def call.simps post_def createLoginWindow_def Let_def)
  have a: "getCourses (new_client True [Parsed (Exception ''invalidtoken'')] [(False, False)])
     = (Thrown TypeError,
        (new_client False [] [])
          \<lparr>requests := [(''core_webservice_get_site_info'', [])], loginWindows := 1\<rparr>)"
    unfolding getCourses_def getUserID_def c by (simp add: new_client_def)
  have b: "fst (getCourses (new_client True [Parsed (SiteInfo 7 ''Ada''), Fails] [])) = Returned []"
    by (simp add: getCourses_def getUserID_def new_client_def call_parsed call_fails_nocatch
                  emit_def)
  show ?thesis using a b by (simp add: new_client_def)
qed

end
